theory Spec2Isabelle
  imports Complex_Main "HOL-Library.Word" "HOL-Library.Char_ord" "HOL-Library.List_Lexorder"
    "HOL-Library.Product_Lexorder"
begin

section \<open>AtomMan panel daemon (screen.py): data model\<close>

text \<open>
  The daemon answers the poll frames of a USB status panel over a serial line.
  Python integers are modelled as \<open>int\<close>, bytes as 8-bit words, Python \<open>str\<close> values
  that are only compared and sorted (interface names) as \<open>string\<close>, payload texts as
  lists of code points (\<open>encode("latin-1", "ignore")\<close> drops the code points above 255),
  and the floats returned by \<open>time.time()\<close> and the transfer rates as real numbers.
\<close>

type_synonym byte = "8 word"
type_synonym pytext = "nat list"

datatype error = ValueError | ClockExhausted

subsection \<open>The serial line\<close>

text \<open>
  The receive side of the line is the sequence of things successive reads observe: a
  byte, or the expiry of the read timeout (\<open>serial.Serial(..., timeout=1.0)\<close>). The end
  of the list is the end of the observed input; a read there returns no byte, as a read
  that times out does.
\<close>

datatype rx_event = Byte byte | Timeout

text \<open>\<open>ser.read(n)\<close>: up to \<open>n\<close> bytes, fewer when the timeout expires first.\<close>

fun ser_read :: "nat \<Rightarrow> rx_event list \<Rightarrow> byte list \<times> rx_event list" where
  "ser_read 0 s = ([], s)"
| "ser_read (Suc n) [] = ([], [])"
| "ser_read (Suc n) (Timeout # s) = ([], s)"
| "ser_read (Suc n) (Byte b # s) = (case ser_read n s of (bs, s') \<Rightarrow> (b # bs, s'))"

subsection \<open>Frame codec\<close>

definition TRAILER :: "byte list" where
  "TRAILER = [0xCC, 0x33, 0xC3, 0x3C]"

text \<open>
  \<open>read_enq(ser)\<close>, returning the sequence byte (as the Python int \<open>b3[0]\<close>) or \<open>None\<close>,
  together with the rest of the input. Each \<open>return None\<close> of the source is a branch.
\<close>

definition read_enq :: "rx_event list \<Rightarrow> int option \<times> rx_event list" where
  "read_enq s =
     (case ser_read 1 s of (h1, s1) \<Rightarrow>
        if h1 \<noteq> [0xAA] then (None, s1)
        else case ser_read 1 s1 of (h2, s2) \<Rightarrow>
          if h2 \<noteq> [0x05] then (None, s2)
          else case ser_read 1 s2 of (b3, s3) \<Rightarrow>
            (case b3 of
               [] \<Rightarrow> (None, s3)
             | b # _ \<Rightarrow>
                 (case ser_read 4 s3 of (tr, s4) \<Rightarrow>
                    if tr \<noteq> TRAILER then (None, s4) else (Some (uint b), s4))))"

text \<open>The number of input events one call of \<open>read_enq\<close> takes off the line.\<close>

definition consumed :: "rx_event list \<Rightarrow> nat" where
  "consumed s = length s - length (snd (read_enq s))"

text \<open>
  The poll frame of the protocol (header comment of the source):
  \<open>AA 05 <SEQ> CC 33 C3 3C\<close>, as it arrives on the line.
\<close>

definition poll_frame :: "byte \<Rightarrow> byte list" where
  "poll_frame q = [0xAA, 0x05, q] @ TRAILER"

definition on_line :: "byte list \<Rightarrow> rx_event list" where
  "on_line bs = map Byte bs"

text \<open>
  \<open>bytes([...])\<close> raises \<open>ValueError\<close> on an element outside \<open>range(256)\<close>.
\<close>

fun py_bytes :: "int list \<Rightarrow> error + byte list" where
  "py_bytes [] = Inr []"
| "py_bytes (x # xs) =
     (if 0 \<le> x \<and> x < 256
      then (case py_bytes xs of Inl e \<Rightarrow> Inl e | Inr bs \<Rightarrow> Inr (word_of_int x # bs))
      else Inl ValueError)"

text \<open>\<open>txt.encode("latin-1", "ignore")\<close>: code points above 255 are dropped.\<close>

definition encode_latin1_ignore :: "pytext \<Rightarrow> byte list" where
  "encode_latin1_ignore txt = map of_nat (filter (\<lambda>c. c < 256) txt)"

definition build_reply :: "int \<Rightarrow> int \<Rightarrow> pytext \<Rightarrow> error + byte list" where
  "build_reply id_byte seq_ascii txt =
     (case py_bytes [0xAA, id_byte, 0x00, seq_ascii] of
        Inl e \<Rightarrow> Inl e
      | Inr hd4 \<Rightarrow> Inr (hd4 @ encode_latin1_ignore txt @ TRAILER))"

subsection \<open>Tile registry\<close>

definition CPU :: int where "CPU = 0x53"
definition GPU :: int where "GPU = 0x36"
definition MEM :: int where "MEM = 0x49"
definition DSK :: int where "DSK = 0x4F"
definition DAT :: int where "DAT = 0x6B"
definition NET :: int where "NET = 0x27"
definition VOL :: int where "VOL = 0x10"
definition BAT :: int where "BAT = 0x1A"

text \<open>
  The rotations pair a tile with its payload generator (\<open>p_cpu\<close>, \<open>p_gpu\<close>, ...). The
  generators read the machine's sensors; here they are the environment's \<open>maker\<close>
  (below), and a rotation lists the tiles.
\<close>

definition UNLOCK_ROT :: "int list" where
  "UNLOCK_ROT = [CPU, GPU, MEM]"

definition FULL_ROT :: "int list" where
  "FULL_ROT = [CPU, GPU, MEM, DSK, DAT, NET, VOL, BAT]"

definition SEQ_FOR :: "(int \<times> char) list" where
  "SEQ_FOR = [(CPU, CHR ''2''), (GPU, CHR ''3''), (MEM, CHR ''4''), (DSK, CHR ''5''),
              (DAT, CHR ''6''), (NET, CHR ''7''), (VOL, CHR ''9''), (BAT, CHR ''2'')]"

text \<open>\<open>SEQ_FOR.get(tile_id, '2')\<close>, then \<open>ord\<close>.\<close>

definition seq_for :: "int \<Rightarrow> int" where
  "seq_for tile_id =
     (let ch = (case map_of SEQ_FOR tile_id of None \<Rightarrow> CHR ''2'' | Some c \<Rightarrow> c)
      in if ch = CHR ''<'' then of_char (CHR ''<'') else of_char ch)"

subsection \<open>The daemon's world\<close>

text \<open>
  What the daemon does to the outside is recorded as a trace of actions: frames written
  to the line (\<open>ser.write\<close>, followed in the source by \<open>ser.flush()\<close>), calls of
  \<open>ser.setDTR\<close>, sleeps, and the lines it prints. The dashboard and
  \<open>update_latest_from_payload\<close>, which refresh the values the dashboard shows and
  write nothing to the line, are left out.
\<close>

datatype msg =
    AttemptStart int | AttemptActivated int | AttemptNoActivation int
  | WarnNotActivated | OkActivated

datatype action = Write "byte list" | SetDTR bool | Sleep real | Print msg

text \<open>
  \<open>clock\<close> holds the values successive calls of \<open>time.time()\<close> in the activation code
  return. It is finite: where it ends, the observation of the run ends, and the model
  returns \<open>Inl ClockExhausted\<close>.
\<close>

record world =
  ser_in :: "rx_event list"
  clock :: "real list"
  trace :: "action list"

text \<open>
  The environment the daemon does not control: the payload text a tile's generator
  returns (it depends on the sensors at the moment of the call, here the length of the
  trace so far), and whether a call of \<open>setDTR\<close> raises.
\<close>

record env =
  maker :: "nat \<Rightarrow> int \<Rightarrow> pytext"
  dtr_raises :: "nat \<Rightarrow> bool"

record config =
  cfg_attempts :: int
  cfg_window :: real
  cfg_post_write_sleep :: real

definition emit :: "action list \<Rightarrow> world \<Rightarrow> world" where
  "emit as w = w\<lparr>trace := trace w @ as\<rparr>"

text \<open>The frames written so far, oldest first.\<close>

fun replies :: "action list \<Rightarrow> byte list list" where
  "replies [] = []"
| "replies (Write frm # as) = frm # replies as"
| "replies (a # as) = replies as"

subsection \<open>Steady state\<close>

text \<open>
  The \<open>while True\<close> loop of \<open>main\<close>. It never ends on its own; the model runs it over
  the observed input and stops where that input ends. The result is the rotation index
  and the world then, or the error that ended the process.
\<close>

lemma ser_read_length: "length (snd (ser_read n s)) \<le> length s"
  by (induction n s rule: ser_read.induct) (auto split: prod.splits)

lemma ser_read_shorter: "s \<noteq> [] \<Longrightarrow> length (snd (ser_read (Suc n) s)) < length s"
proof (cases s)
  case Nil
  then show "s \<noteq> [] \<Longrightarrow> ?thesis" by simp
next
  case (Cons x xs)
  have "length (snd (ser_read n xs)) \<le> length xs" by (rule ser_read_length)
  with Cons show ?thesis by (cases x) (auto split: prod.splits)
qed

lemma read_enq_shorter: "s \<noteq> [] \<Longrightarrow> length (snd (read_enq s)) < length s"
proof -
  assume ne: "s \<noteq> []"
  have a: "length (snd (ser_read 1 s)) < length s"
    using ser_read_shorter [OF ne, of 0] by simp
  have b: "\<And>n t. length (snd (ser_read n t)) \<le> length t" by (rule ser_read_length)
  show ?thesis
    unfolding read_enq_def
    using a b [of 1 "snd (ser_read 1 s)"]
      b [of 1 "snd (ser_read 1 (snd (ser_read 1 s)))"]
      b [of 4 "snd (ser_read 1 (snd (ser_read 1 (snd (ser_read 1 s)))))"]
    by (auto split: prod.splits list.splits simp del: ser_read.simps One_nat_def)
qed

lemma read_enq_rest_shorter: "s \<noteq> [] \<Longrightarrow> (x, y) = read_enq s \<Longrightarrow> length y < length s"
  using read_enq_shorter [of s] by (cases "read_enq s") simp

function steady_loop :: "env \<Rightarrow> config \<Rightarrow> nat \<Rightarrow> world \<Rightarrow> error + (nat \<times> world)" where
  "steady_loop e c idx w =
     (if ser_in w = [] then Inr (idx, w)
      else case read_enq (ser_in w) of
        (None, s') \<Rightarrow> steady_loop e c idx (w\<lparr>ser_in := s'\<rparr>)
      | (Some enq3, s') \<Rightarrow>
          (let tile = FULL_ROT ! (idx mod length FULL_ROT);
               payload = maker e (length (trace w)) tile;
               seq = seq_for tile
           in case build_reply tile seq payload of
                Inl err \<Rightarrow> Inl err
              | Inr frm \<Rightarrow>
                  steady_loop e c ((idx + 1) mod 1000000)
                    (emit [Write frm, Sleep (cfg_post_write_sleep c)] (w\<lparr>ser_in := s'\<rparr>))))"
  by pat_completeness auto
termination
proof (relation "measure (\<lambda>(e, c, idx, w). length (ser_in w))")
  show "wf (measure (\<lambda>(e, c, idx, w). length (ser_in w)))" by simp
next
  fix e :: env and c :: config and idx :: nat and w :: world and x y
  assume "ser_in w \<noteq> []" and "(x, y) = read_enq (ser_in w)"
  then show "((e, c, idx, w\<lparr>ser_in := y\<rparr>), (e, c, idx, w))
      \<in> measure (\<lambda>(e, c, idx, w). length (ser_in w))"
    using read_enq_rest_shorter [of "ser_in w" x y] by simp
next
  fix e :: env and c :: config and idx :: nat and w :: world and x y frm
  assume "ser_in w \<noteq> []" and "(x, y) = read_enq (ser_in w)"
  then show "((e, c, (idx + 1) mod 1000000,
        emit [Write frm, Sleep (cfg_post_write_sleep c)] (w\<lparr>ser_in := y\<rparr>)), (e, c, idx, w))
      \<in> measure (\<lambda>(e, c, idx, w). length (ser_in w))"
    using read_enq_rest_shorter [of "ser_in w" x y] by (simp add: emit_def)
qed

text \<open>
  The scheduler of the round-robin claim, for comparison: the same loop with a rotation
  index that is never wrapped (\<open>idx = idx + 1\<close>).
\<close>

function steady_loop_unbounded ::
  "env \<Rightarrow> config \<Rightarrow> nat \<Rightarrow> world \<Rightarrow> error + (nat \<times> world)" where
  "steady_loop_unbounded e c n w =
     (if ser_in w = [] then Inr (n, w)
      else case read_enq (ser_in w) of
        (None, s') \<Rightarrow> steady_loop_unbounded e c n (w\<lparr>ser_in := s'\<rparr>)
      | (Some enq3, s') \<Rightarrow>
          (let tile = FULL_ROT ! (n mod length FULL_ROT);
               payload = maker e (length (trace w)) tile;
               seq = seq_for tile
           in case build_reply tile seq payload of
                Inl err \<Rightarrow> Inl err
              | Inr frm \<Rightarrow>
                  steady_loop_unbounded e c (n + 1)
                    (emit [Write frm, Sleep (cfg_post_write_sleep c)] (w\<lparr>ser_in := s'\<rparr>))))"
  by pat_completeness auto
termination
proof (relation "measure (\<lambda>(e, c, n, w). length (ser_in w))")
  show "wf (measure (\<lambda>(e, c, n, w). length (ser_in w)))" by simp
next
  fix e :: env and c :: config and n :: nat and w :: world and x y
  assume "ser_in w \<noteq> []" and "(x, y) = read_enq (ser_in w)"
  then show "((e, c, n, w\<lparr>ser_in := y\<rparr>), (e, c, n, w))
      \<in> measure (\<lambda>(e, c, n, w). length (ser_in w))"
    using read_enq_rest_shorter [of "ser_in w" x y] by simp
next
  fix e :: env and c :: config and n :: nat and w :: world and x y frm
  assume "ser_in w \<noteq> []" and "(x, y) = read_enq (ser_in w)"
  then show "((e, c, n + 1,
        emit [Write frm, Sleep (cfg_post_write_sleep c)] (w\<lparr>ser_in := y\<rparr>)), (e, c, n, w))
      \<in> measure (\<lambda>(e, c, n, w). length (ser_in w))"
    using read_enq_rest_shorter [of "ser_in w" x y] by (simp add: emit_def)
qed

text \<open>
  The sequence bytes of the valid polls on the line, in the order in which the steady
  state meets them (it reads frame after frame with \<open>read_enq\<close>).
\<close>

function polls :: "rx_event list \<Rightarrow> int list" where
  "polls s =
     (if s = [] then []
      else case read_enq s of (None, s') \<Rightarrow> polls s' | (Some q, s') \<Rightarrow> q # polls s')"
  by pat_completeness auto
termination
  by (relation "measure length") (auto dest: read_enq_rest_shorter)

text \<open>
  The tile a reply frame serves is its second byte (\<open>AA <TileID> 00 <SEQ> ...\<close>), its
  sequence byte the fourth; \<open>served\<close> lists the tiles of the frames written, oldest
  first.
\<close>

definition reply_tile :: "byte list \<Rightarrow> int" where
  "reply_tile frm = uint (frm ! 1)"

definition reply_seq :: "byte list \<Rightarrow> int" where
  "reply_seq frm = uint (frm ! 3)"

definition served :: "action list \<Rightarrow> int list" where
  "served as = map reply_tile (replies as)"

text \<open>The tile and the sequence byte of every frame written, oldest first.\<close>

definition answered :: "action list \<Rightarrow> (int \<times> int) list" where
  "answered as = map (\<lambda>frm. (reply_tile frm, reply_seq frm)) (replies as)"

text \<open>
  The frame the steady state writes for rotation index \<open>idx\<close> in world \<open>w\<close>, spelt out
  byte by byte (used to state what \<open>build_reply\<close> returns there).
\<close>

definition steady_frame :: "env \<Rightarrow> nat \<Rightarrow> world \<Rightarrow> byte list" where
  "steady_frame e idx w =
     (let tile = FULL_ROT ! (idx mod 8)
      in [0xAA, word_of_int tile, 0x00, word_of_int (seq_for tile)]
           @ encode_latin1_ignore (maker e (length (trace w)) tile) @ TRAILER)"

subsection \<open>Activation\<close>

definition is_ascii_seq :: "int \<Rightarrow> bool" where
  "is_ascii_seq b \<longleftrightarrow> (0x30 \<le> b \<and> b \<le> 0x39) \<or> b = 0x3C"

text \<open>The local variables of \<open>unlock_attempt\<close>.\<close>

record ustate =
  u_idx :: nat
  boot_replies :: nat
  enq_times :: "real list"

text \<open>
  \<open>[t for t in enq_times if time.time()-t <= 2.0]\<close>: the clock is read once for
  every element. The second component is the clock that is left.
\<close>

fun keep_recent :: "real list \<Rightarrow> real list \<Rightarrow> error + (real list \<times> real list)" where
  "keep_recent [] ck = Inr ([], ck)"
| "keep_recent (t # ts) [] = Inl ClockExhausted"
| "keep_recent (t # ts) (now # ck) =
     (case keep_recent ts ck of
        Inl err \<Rightarrow> Inl err
      | Inr (ks, ck') \<Rightarrow> Inr (if now - t \<le> 2 then t # ks else ks, ck'))"

lemma keep_recent_clock: "keep_recent ts ck = Inr (ks, ck') \<Longrightarrow> length ck' \<le> length ck"
proof (induction ts ck arbitrary: ks ck' rule: keep_recent.induct)
  case (1 ck)
  then show ?case by simp
next
  case (2 t ts)
  then show ?case by simp
next
  case (3 t ts now ck)
  from "3.prems" obtain ks0 where "keep_recent ts ck = Inr (ks0, ck')"
    by (auto split: sum.splits)
  from "3.IH" [OF this] show ?case by simp
qed

text \<open>
  The \<open>while\<close> loop of \<open>unlock_attempt\<close>: \<open>k\<close> is \<open>attempt_idx\<close>, \<open>start\<close> the
  time the attempt began. The result is \<open>activated\<close> and the world at the return.
\<close>

function unlock_loop ::
  "env \<Rightarrow> config \<Rightarrow> int \<Rightarrow> real \<Rightarrow> ustate \<Rightarrow> world \<Rightarrow> error + (bool \<times> world)" where
  "unlock_loop e c k start st w =
     (case clock w of
        [] \<Rightarrow> Inl ClockExhausted
      | tg # ck \<Rightarrow>
          if tg - start < cfg_window c then
            (case read_enq (ser_in w) of
               (None, s') \<Rightarrow> unlock_loop e c k start st (w\<lparr>ser_in := s', clock := ck\<rparr>)
             | (Some seq, s') \<Rightarrow>
                 (case ck of
                    [] \<Rightarrow> Inl ClockExhausted
                  | ta # ck1 \<Rightarrow>
                      (case keep_recent (enq_times st @ [ta]) ck1 of
                         Inl err \<Rightarrow> Inl err
                       | Inr (ets, ck2) \<Rightarrow>
                           (let tile = UNLOCK_ROT ! (u_idx st mod length UNLOCK_ROT);
                                payload = maker e (length (trace w)) tile
                            in case build_reply tile seq payload of
                                 Inl err \<Rightarrow> Inl err
                               | Inr frm \<Rightarrow>
                                   (let w1 = emit [Write frm, Sleep (cfg_post_write_sleep c)]
                                               (w\<lparr>ser_in := s', clock := ck2\<rparr>);
                                        br = boot_replies st + (if is_ascii_seq seq then 1 else 0)
                                    in if br \<ge> 3 \<and> length ets \<ge> 5
                                       then Inr (True, emit [Print (AttemptActivated k)] w1)
                                       else unlock_loop e c k start
                                              \<lparr>u_idx = u_idx st + 1, boot_replies = br,
                                               enq_times = ets\<rparr> w1)))))
          else Inr (False, emit [Print (AttemptNoActivation k)] (w\<lparr>clock := ck\<rparr>)))"
  by pat_completeness auto
termination
  by (relation "measure (\<lambda>(e, c, k, start, st, w). length (clock w))")
    (auto simp: emit_def dest: keep_recent_clock)

definition unlock_attempt :: "env \<Rightarrow> config \<Rightarrow> int \<Rightarrow> world \<Rightarrow> error + (bool \<times> world)" where
  "unlock_attempt e c attempt_idx w =
     (let w0 = emit [Print (AttemptStart attempt_idx)] w
      in case clock w0 of
           [] \<Rightarrow> Inl ClockExhausted
         | start # ck \<Rightarrow>
             unlock_loop e c attempt_idx start
               \<lparr>u_idx = 0, boot_replies = 0, enq_times = []\<rparr> (w0\<lparr>clock := ck\<rparr>))"

text \<open>
  \<open>try: ser.setDTR(False); time.sleep(0.05); ser.setDTR(True)\<close>, \<open>except Exception: pass\<close>,
  then \<open>time.sleep(0.3)\<close>. When the first call raises, the rest of the \<open>try\<close> block is
  skipped; an exception of the second call changes nothing that follows.
\<close>

definition dtr_pulse :: "env \<Rightarrow> world \<Rightarrow> world" where
  "dtr_pulse e w =
     (let w1 = emit [SetDTR False] w;
          w2 = (if dtr_raises e (length (trace w)) then w1
                else emit [Sleep (5 / 100), SetDTR True] w1)
      in emit [Sleep (3 / 10)] w2)"

text \<open>
  \<open>for i in range(1, args.attempts+1)\<close> of \<open>main\<close>, from \<open>i\<close> on. The result is
  \<open>activated\<close> after the loop.
\<close>

function activation :: "env \<Rightarrow> config \<Rightarrow> int \<Rightarrow> world \<Rightarrow> error + (bool \<times> world)" where
  "activation e c i w =
     (if i \<le> cfg_attempts c then
        (case unlock_attempt e c i w of
           Inl err \<Rightarrow> Inl err
         | Inr (activated, w1) \<Rightarrow>
             if activated then Inr (True, w1)
             else activation e c (i + 1) (dtr_pulse e w1))
      else Inr (False, w))"
  by pat_completeness auto
termination
  by (relation "measure (\<lambda>(e, c, i, w). nat (cfg_attempts c + 1 - i))") auto


subsection \<open>Observations on traces\<close>

text \<open>A stretch of the trace with frames and sleeps only.\<close>

fun quiet :: "action list \<Rightarrow> bool" where
  "quiet [] = True"
| "quiet (Write frm # as) = quiet as"
| "quiet (Sleep d # as) = quiet as"
| "quiet (a # as) = False"






subsection \<open>Example runs\<close>







subsection \<open>Rate formatting\<close>

text \<open>
  \<open>int(round(x))\<close> and the rounding of \<open>f"{x:.1f}"\<close>: to the nearest integer, a tie
  to the even one.
\<close>

definition py_round :: "real \<Rightarrow> int" where
  "py_round x =
     (let f = \<lfloor>x\<rfloor>; d = x - of_int f
      in if d < 1 / 2 then f else if 1 / 2 < d then f + 1 else if even f then f else f + 1)"

definition digit_char :: "nat \<Rightarrow> char" where
  "digit_char d = ''0123456789'' ! d"

text \<open>\<open>str(n)\<close> for a natural number: its decimal digits.\<close>

function str_nat :: "nat \<Rightarrow> string" where
  "str_nat n = (if n < 10 then [digit_char n] else str_nat (n div 10) @ [digit_char (n mod 10)])"
  by pat_completeness auto
termination
  by (relation "measure id") auto

text \<open>
  \<open>f"{x:.1f}"\<close> for a finite float \<open>x\<close>, taken as the real number it is: the sign, then
  the decimal digits of \<open>|x|\<close> rounded to one decimal place (Python rounds the exact
  binary value, a tie to the even digit). NaN and the infinities are not numbers of the
  model.
\<close>

definition fmt_1f :: "real \<Rightarrow> string" where
  "fmt_1f x =
     (let n = nat (py_round (\<bar>x\<bar> * 10))
      in (if x < 0 then ''-'' else '''') @ str_nat (n div 10) @ ''.'' @ [digit_char (n mod 10)])"

text \<open>\<open>_fmt_rate(rate_kbs)\<close>.\<close>

definition fmt_rate :: "real option \<Rightarrow> string" where
  "fmt_rate rate_kbs =
     (case rate_kbs of
        None \<Rightarrow> ''N/A''
      | Some r \<Rightarrow>
          if r < 1024 then fmt_1f r @ '' K/s''
          else (let mbps = r / 1024
                in if mbps < 1024 then fmt_1f mbps @ '' M/s''
                   else (let gbps = mbps / 1024 in fmt_1f gbps @ '' G/s'')))"

text \<open>The decimal digits.\<close>

definition is_digit :: "char \<Rightarrow> bool" where
  "is_digit ch \<longleftrightarrow> ch \<in> set ''0123456789''"

text \<open>
  The scaling the formatting claim describes: the unit suffix for a rate in KB/s, and the
  rate divided by 1024 once or twice accordingly.
\<close>

definition rate_unit :: "real \<Rightarrow> string" where
  "rate_unit r = (if r < 1024 then '' K/s'' else if r < 1024 * 1024 then '' M/s'' else '' G/s'')"

definition rate_scaled :: "real \<Rightarrow> real" where
  "rate_scaled r =
     (if r < 1024 then r else if r < 1024 * 1024 then r / 1024 else r / 1024 / 1024)"

subsection \<open>Fan speed\<close>

text \<open>
  \<open>_fan_rpm_from_hwmon\<close>. The environment is what the scan finds: for every
  \<open>hwmon*\<close> directory, in the order of the glob, and every \<open>fan*_input\<close> file in it,
  the integer the file holds, or \<open>None\<close> where opening or parsing it raises (the
  \<open>except Exception: pass\<close> of the source). \<open>hwmon_scan\<close> is the loop over the files
  with the variable \<open>best\<close>.
\<close>

fun hwmon_scan :: "int option \<Rightarrow> int option list \<Rightarrow> int option" where
  "hwmon_scan best [] = best"
| "hwmon_scan best (None # fans) = hwmon_scan best fans"
| "hwmon_scan best (Some v # fans) =
     hwmon_scan (if v > 0 then (case best of None \<Rightarrow> Some v | Some b \<Rightarrow> Some (max b v))
                 else best) fans"

definition fan_rpm_from_hwmon :: "int option list list \<Rightarrow> int option" where
  "fan_rpm_from_hwmon hwmons = hwmon_scan None (concat hwmons)"

text \<open>
  What \<open>nvidia-smi --query-gpu=fan.speed\<close> gives: no output (the tool is absent, fails
  or times out, \<open>_run\<close> returns the empty string), a blank first line, a first line
  that makes \<open>float\<close> or \<open>round\<close> raise (not a number, or \<open>nan\<close> or an infinity), or a
  percentage.
\<close>

datatype smi_output = NoOutput | BlankLine | NotANumber | Percent real

text \<open>
  \<open>_fan_rpm_from_nvidia(max_rpm)\<close>. The product is taken in the reals; the source
  computes it in binary floating point, so where the exact product lies on a rounding
  tie the two can differ by one (81 percent of 2250: 1822 here, 1823 in the source).
  The properties below use only whether a value is returned and its sign.
\<close>

definition fan_rpm_from_nvidia :: "smi_output \<Rightarrow> int \<Rightarrow> int option" where
  "fan_rpm_from_nvidia out max_rpm =
     (case out of
        NoOutput \<Rightarrow> None
      | BlankLine \<Rightarrow> None
      | NotANumber \<Rightarrow> None
      | Percent percent \<Rightarrow> Some (py_round ((percent / 100) * of_int (max 1 max_rpm))))"

record fan_env =
  hwmon :: "int option list list"
  smi :: smi_output

text \<open>\<open>str.lower()\<close> on the letters A to Z.\<close>

definition lower_char :: "char \<Rightarrow> char" where
  "lower_char ch =
     (if CHR ''A'' \<le> ch \<and> ch \<le> CHR ''Z'' then char_of (of_char ch + (32 :: nat)) else ch)"

definition py_lower :: "string \<Rightarrow> string" where
  "py_lower s = map lower_char s"

text \<open>\<open>fan_rpm(prefer, max_rpm)\<close>.\<close>

definition fan_rpm :: "string \<Rightarrow> int \<Rightarrow> fan_env \<Rightarrow> int" where
  "fan_rpm prefer max_rpm env =
     (let prefer = py_lower (if prefer = [] then ''auto'' else prefer)
      in if prefer = ''hwmon'' then
           (case fan_rpm_from_hwmon (hwmon env) of
              Some v \<Rightarrow> v
            | None \<Rightarrow> (case fan_rpm_from_nvidia (smi env) max_rpm of Some v \<Rightarrow> v | None \<Rightarrow> - 1))
         else if prefer = ''nvidia'' then
           (case fan_rpm_from_nvidia (smi env) max_rpm of
              Some v \<Rightarrow> v
            | None \<Rightarrow> (case fan_rpm_from_hwmon (hwmon env) of Some v \<Rightarrow> v | None \<Rightarrow> - 1))
         else
           (case fan_rpm_from_hwmon (hwmon env) of
              Some v \<Rightarrow> v
            | None \<Rightarrow> (case fan_rpm_from_nvidia (smi env) max_rpm of Some v \<Rightarrow> v | None \<Rightarrow> - 1)))"

text \<open>
  The fallback chain of the fan claim: the value of the first source when it has one,
  else that of the second, else the sentinel -1.
\<close>

definition first_of :: "int option \<Rightarrow> int option \<Rightarrow> int" where
  "first_of a b = (case a of Some v \<Rightarrow> v | None \<Rightarrow> (case b of Some v \<Rightarrow> v | None \<Rightarrow> - 1))"

text \<open>
  A machine whose only fan file reads 0 and whose GPU reports a duty of 50 percent.
\<close>

definition fan_env0 :: fan_env where
  "fan_env0 = \<lparr>hwmon = [[Some 0]], smi = Percent 50\<rparr>"

subsection \<open>Network interface picker\<close>

text \<open>
  What the picker reads from the machine, at one moment: the device names in the lines
  of \<open>ip -o route show default\<close>, in order; the names in \<open>/sys/class/net\<close> (\<open>None\<close> when
  listing it raises); for every interface, whether its \<open>operstate\<close> file reads \<open>up\<close>,
  whether its \<open>carrier\<close> file reads \<open>1\<close> (a file that cannot be read leaves the default
  \<open>False\<close>), and whether it has a \<open>wireless\<close> directory; the lines of \<open>/proc/net/dev\<close>
  (below); the time.
\<close>

type_synonym netdev_line = "(string \<times> int list) option"

record net_env =
  route_devs :: "string list"
  sys_class_net :: "string list option"
  operstate_up :: "string \<Rightarrow> bool"
  has_carrier :: "string \<Rightarrow> bool"
  has_wireless_dir :: "string \<Rightarrow> bool"
  proc_net_dev :: "netdev_line list option"
  time_now :: real

record info =
  name :: string
  up :: bool
  carrier :: bool
  wireless :: bool

definition is_wireless :: "net_env \<Rightarrow> string \<Rightarrow> bool" where
  "is_wireless env iface = has_wireless_dir env iface"

definition iface_info :: "net_env \<Rightarrow> string \<Rightarrow> info" where
  "iface_info env iface =
     \<lparr>name = iface, up = operstate_up env iface, carrier = has_carrier env iface,
      wireless = is_wireless env iface\<rparr>"

text \<open>Python's truth value of a name that may be \<open>None\<close>: false for \<open>None\<close> and \<open>""\<close>.\<close>

definition truthy :: "string option \<Rightarrow> bool" where
  "truthy s \<longleftrightarrow> s \<noteq> None \<and> s \<noteq> Some []"

text \<open>\<open>list(dict.fromkeys(devs))\<close>: the first occurrence of every name, in order.\<close>

fun fromkeys_into :: "'a list \<Rightarrow> 'a list \<Rightarrow> 'a list" where
  "fromkeys_into seen [] = seen"
| "fromkeys_into seen (x # xs) = fromkeys_into (if x \<in> set seen then seen else seen @ [x]) xs"

definition default_route_ifaces :: "net_env \<Rightarrow> string list" where
  "default_route_ifaces env = fromkeys_into [] (route_devs env)"

definition list_candidate_ifaces :: "net_env \<Rightarrow> string list" where
  "list_candidate_ifaces env =
     (case sys_class_net env of
        None \<Rightarrow> []
      | Some names \<Rightarrow> filter (\<lambda>i. i \<noteq> ''lo'') (sort names))"

text \<open>The score of the picker and the tuple it ranks an interface by.\<close>

definition score_of :: "info \<Rightarrow> int" where
  "score_of nfo =
     (if up nfo \<and> carrier nfo then 2 else if up nfo then 1 else 0)
       + (if \<not> wireless nfo then 1 else 0)"

definition rank_entry :: "net_env \<Rightarrow> string \<Rightarrow> int \<times> bool \<times> string" where
  "rank_entry env i = (let nfo = iface_info env i in (score_of nfo, \<not> wireless nfo, name nfo))"

text \<open>
  \<open>xs.sort(reverse=True)\<close>: descending, equal elements in their original order. Tuples
  compare lexicographically, \<open>False < True\<close>, strings by their characters.
\<close>

definition sort_reverse :: "'a::linorder list \<Rightarrow> 'a list" where
  "sort_reverse xs = rev (sort (rev xs))"

text \<open>\<open>for score, _wired, name in ranked: if score > 0: return name\<close>.\<close>

fun first_positive :: "(int \<times> bool \<times> string) list \<Rightarrow> string option" where
  "first_positive [] = None"
| "first_positive ((sc, wired, nm) # rest) =
     (if sc > 0 then Some nm else first_positive rest)"

text \<open>
  \<open>_pick_iface(preferred)\<close>. The machine is read as it is at one moment (the source
  lists \<open>/sys/class/net\<close> a second time for \<open>pool\<close>).
\<close>

definition pick_iface :: "string option \<Rightarrow> net_env \<Rightarrow> string option" where
  "pick_iface preferred env =
     (if truthy preferred then preferred
      else case first_positive (sort_reverse (map (rank_entry env) (default_route_ifaces env))) of
        Some nm \<Rightarrow> Some nm
      | None \<Rightarrow>
          (case first_positive (sort_reverse (map (rank_entry env) (list_candidate_ifaces env))) of
             Some nm \<Rightarrow> Some nm
           | None \<Rightarrow>
               (case list_candidate_ifaces env of [] \<Rightarrow> None | p # _ \<Rightarrow> Some p)))"

text \<open>
  The score of an interface in an environment, and the order the ranking tuples put on
  interfaces, written out: a higher score first; at equal scores a wired interface
  before a wireless one; then the greater name.
\<close>

definition score :: "net_env \<Rightarrow> string \<Rightarrow> int" where
  "score env i = score_of (iface_info env i)"

definition outranks :: "net_env \<Rightarrow> string \<Rightarrow> string \<Rightarrow> bool" where
  "outranks env n d \<longleftrightarrow>
     score env d < score env n \<or>
     (score env d = score env n \<and>
        ((is_wireless env d \<and> \<not> is_wireless env n) \<or>
         ((is_wireless env d \<longleftrightarrow> is_wireless env n) \<and> d \<le> n)))"

text \<open>
  Two wired interfaces, both up with carrier, both with a default route, \<open>eth0\<close> listed
  first.
\<close>

definition tie_env :: net_env where
  "tie_env = \<lparr>route_devs = [''eth0'', ''eth1''], sys_class_net = Some [''lo'', ''eth1'', ''eth0''],
     operstate_up = (\<lambda>i. True), has_carrier = (\<lambda>i. True), has_wireless_dir = (\<lambda>i. False),
     proc_net_dev = None, time_now = 0\<rparr>"

text \<open>
  A machine without a default route: \<open>eth0\<close> (wired) and \<open>wlan0\<close> (wireless) are both
  up with carrier.
\<close>

definition no_route_env :: net_env where
  "no_route_env = \<lparr>route_devs = [], sys_class_net = Some [''wlan0'', ''lo'', ''eth0''],
     operstate_up = (\<lambda>i. True), has_carrier = (\<lambda>i. True),
     has_wireless_dir = (\<lambda>i. i = ''wlan0''), proc_net_dev = None, time_now = 0\<rparr>"

text \<open>A machine whose interfaces are all wireless and down, with a stale default route.\<close>

definition all_down_env :: net_env where
  "all_down_env = \<lparr>route_devs = [''wlan1''], sys_class_net = Some [''wlan1'', ''lo'', ''wlan0''],
     operstate_up = (\<lambda>i. False), has_carrier = (\<lambda>i. False),
     has_wireless_dir = (\<lambda>i. True), proc_net_dev = None, time_now = 0\<rparr>"

subsection \<open>Network rate meter\<close>

text \<open>
  A line of \<open>/proc/net/dev\<close> is \<open>None\<close> when it has no colon, else the stripped text
  before the colon and the whitespace-separated columns after it, read as integers.
  \<open>_read_netdev\<close> returns no line when the file cannot be read.
\<close>

definition read_netdev :: "net_env \<Rightarrow> netdev_line list" where
  "read_netdev env = (case proc_net_dev env of None \<Rightarrow> [] | Some lines \<Rightarrow> lines)"

text \<open>\<open>_parse_netdev(lines, iface)\<close>: \<open>Some (rx, tx)\<close>, or \<open>None\<close> for \<open>(None, None)\<close>.\<close>

fun parse_netdev :: "netdev_line list \<Rightarrow> string \<Rightarrow> (int \<times> int) option" where
  "parse_netdev [] iface = None"
| "parse_netdev (None # lines) iface = parse_netdev lines iface"
| "parse_netdev (Some (nm, cols) # lines) iface =
     (if nm = iface \<and> length cols \<ge> 16 then Some (cols ! 0, cols ! 8)
      else parse_netdev lines iface)"

text \<open>
  The fields of \<open>NetMeter\<close>. \<open>rx0\<close>, \<open>tx0\<close> and \<open>t0\<close> are assigned together, all \<open>None\<close>
  or all set: they are one optional baseline.
\<close>

record net_meter =
  iface :: "string option"
  baseline :: "(int \<times> int \<times> real) option"

text \<open>
  The machine changes while the meter runs: \<open>m k\<close> is the machine at the \<open>k\<close>-th read
  the meter makes of it (a call of \<open>_iface_info\<close>, \<open>_pick_iface\<close>, \<open>_read_netdev\<close> or
  \<open>time.time()\<close>). The methods take the number of reads made so far with the meter and
  return both updated.
\<close>

type_synonym machine = "nat \<Rightarrow> net_env"

definition prime :: "machine \<Rightarrow> nat \<times> net_meter \<Rightarrow> nat \<times> net_meter" where
  "prime m s =
     (case s of (k, nm) \<Rightarrow>
        (case iface nm of
           None \<Rightarrow> (k, nm)
         | Some i \<Rightarrow>
             if i = [] then (k, nm)
             else (case parse_netdev (read_netdev (m k)) i of
                Some (rx, tx) \<Rightarrow>
                  (k + 2, nm\<lparr>baseline := Some (rx, tx, time_now (m (k + 1)))\<rparr>)
              | None \<Rightarrow>
                  (let new = pick_iface None (m (k + 1));
                       nm1 = nm\<lparr>iface := new\<rparr>
                   in case new of
                        None \<Rightarrow> (k + 2, nm1)
                      | Some j \<Rightarrow>
                          if j = [] then (k + 2, nm1)
                          else (case parse_netdev (read_netdev (m (k + 2))) j of
                                  Some (rx, tx) \<Rightarrow>
                                    (k + 4, nm1\<lparr>baseline := Some (rx, tx, time_now (m (k + 3)))\<rparr>)
                                | None \<Rightarrow> (k + 3, nm1))))))"

definition maybe_repick :: "machine \<Rightarrow> nat \<times> net_meter \<Rightarrow> nat \<times> net_meter" where
  "maybe_repick m s =
     (case s of (k, nm) \<Rightarrow>
        (case (if truthy (iface nm) then iface nm else None) of
           None \<Rightarrow> prime m (k + 1, nm\<lparr>iface := pick_iface None (m k)\<rparr>)
         | Some i \<Rightarrow>
             (let nfo = iface_info (m k) i
              in if \<not> up nfo \<or> (wireless nfo \<and> \<not> carrier nfo) then
                   (let new = pick_iface None (m (k + 1))
                    in if truthy new \<and> new \<noteq> iface nm
                       then prime m (k + 2, nm\<lparr>iface := new\<rparr>)
                       else (k + 2, nm))
                 else (k + 1, nm))))"

text \<open>\<open>rates_ks\<close>: \<open>Some (rxk, txk)\<close>, or \<open>None\<close> for \<open>(None, None)\<close>.\<close>

definition rates_ks ::
  "machine \<Rightarrow> nat \<times> net_meter \<Rightarrow> (real \<times> real) option \<times> nat \<times> net_meter" where
  "rates_ks m s =
     (case maybe_repick m s of (k, nm) \<Rightarrow>
        (case (if truthy (iface nm) then iface nm else None) of
           None \<Rightarrow> (None, k, nm)
         | Some i \<Rightarrow>
             (case (parse_netdev (read_netdev (m k)) i, baseline nm) of
                (Some (rx1, tx1), Some (rx0, tx0, t0)) \<Rightarrow>
                  (let t1 = time_now (m (k + 1));
                       dt = max (1 / 1000) (t1 - t0);
                       rxk = of_int (rx1 - rx0) / dt / 1024;
                       txk = of_int (tx1 - tx0) / dt / 1024
                   in (Some (max 0 rxk, max 0 txk),
                       k + 2, nm\<lparr>baseline := Some (rx1, tx1, t1)\<rparr>))
              | _ \<Rightarrow> (None, prime m (k + 1, nm)))))"

text \<open>\<open>NetMeter.__init__\<close>, with the value of \<open>ATOMMAN_NET_IFACE\<close> (stripped, \<open>None\<close> when empty).\<close>

definition net_meter_init :: "machine \<Rightarrow> string option \<Rightarrow> nat \<times> net_meter" where
  "net_meter_init m env_iface =
     prime m (1, \<lparr>iface = pick_iface env_iface (m 0), baseline = None\<rparr>)"

text \<open>The interface is down, or wireless without carrier: the re-pick trigger.\<close>

definition gone_down :: "net_env \<Rightarrow> string \<Rightarrow> bool" where
  "gone_down env i \<longleftrightarrow>
     \<not> operstate_up env i \<or> (has_wireless_dir env i \<and> \<not> has_carrier env i)"



text \<open>The meter still on \<open>eth0\<close>, with a baseline taken from it at time 99.\<close>

definition roam_meter :: net_meter where
  "roam_meter = \<lparr>iface = Some ''eth0'', baseline = Some (500, 600, 99)\<rparr>"

text \<open>
  The baseline \<open>b\<close> is a sample of the interface \<open>i\<close> taken within the first \<open>k\<close> reads:
  one of these reads, of \<open>/proc/net/dev\<close>, showed for \<open>i\<close> the counters that \<open>b\<close> holds,
  and the read after it, of the clock, the time that \<open>b\<close> holds. This is how \<open>_prime\<close>
  and \<open>rates_ks\<close> take a sample: \<open>_read_netdev()\<close>, then \<open>time.time()\<close>.
\<close>

definition sample_of :: "machine \<Rightarrow> nat \<Rightarrow> string \<Rightarrow> int \<times> int \<times> real \<Rightarrow> bool" where
  "sample_of m k i b \<longleftrightarrow>
     (\<exists>k0 \<in> {0..<k}. k0 + 1 < k \<and>
        parse_netdev (read_netdev (m k0)) i = Some (fst b, fst (snd b)) \<and>
        time_now (m (k0 + 1)) = snd (snd b))"

text \<open>
  A machine on which the wireless interface comes late: \<open>eth0\<close> is down, \<open>wlan0\<close> is up
  with carrier and has the default route, but \<open>/proc/net/dev\<close> has no line for \<open>wlan0\<close>
  before the read 5; from then on its counters stand still at 22004 and 600 bytes.
\<close>

definition late_machine :: machine where
  "late_machine k =
     \<lparr>route_devs = [''wlan0''], sys_class_net = Some [''eth0'', ''lo'', ''wlan0''],
      operstate_up = (\<lambda>i. i = ''wlan0''), has_carrier = (\<lambda>i. i = ''wlan0''),
      has_wireless_dir = (\<lambda>i. i = ''wlan0''),
      proc_net_dev = Some ([None, None,
        Some (''eth0'', [500, 0, 0, 0, 0, 0, 0, 0, 600, 0, 0, 0, 0, 0, 0, 0])] @
        (if k < 5 then []
         else [Some (''wlan0'', [22004, 0, 0, 0, 0, 0, 0, 0, 600, 0, 0, 0, 0, 0, 0, 0])])),
      time_now = 100 + real k\<rparr>"

section \<open>Frame codec: properties\<close>

declare steady_loop.simps [simp del] steady_loop_unbounded.simps [simp del]
  unlock_loop.simps [simp del] activation.simps [simp del] str_nat.simps [simp del]
  polls.simps [simp del]

lemma ser_read_bytes: "ser_read n (on_line bs @ rest) =
    (if n \<le> length bs then (take n bs, on_line (drop n bs) @ rest)
     else (case ser_read (n - length bs) rest of (cs, r) \<Rightarrow> (bs @ cs, r)))"
proof (induction n arbitrary: bs)
  case 0
  then show ?case by (simp add: on_line_def)
next
  case (Suc n)
  show ?case
  proof (cases bs)
    case Nil
    then show ?thesis by (simp add: on_line_def split: prod.splits)
  next
    case (Cons b bs')
    with Suc [of bs'] show ?thesis by (simp add: on_line_def split: prod.splits)
  qed
qed

lemma read_enq_bytes7:
  "read_enq (Byte b1 # Byte b2 # Byte b3 # Byte b4 # Byte b5 # Byte b6 # Byte b7 # rest) =
     (if b1 \<noteq> 0xAA then (None, Byte b2 # Byte b3 # Byte b4 # Byte b5 # Byte b6 # Byte b7 # rest)
      else if b2 \<noteq> 0x05 then (None, Byte b3 # Byte b4 # Byte b5 # Byte b6 # Byte b7 # rest)
      else if [b4, b5, b6, b7] \<noteq> TRAILER then (None, rest)
      else (Some (uint b3), rest))"
  by (simp add: read_enq_def eval_nat_numeral)

text \<open>
  Claim C3. A well-formed poll frame \<open>AA 05 q CC 33 C3 3C\<close> at the head of the input
  makes \<open>read_enq\<close> return its third byte \<open>q\<close>; with any one of the two header bytes
  or the four trailer bytes replaced by a different byte, \<open>read_enq\<close> returns \<open>None\<close>.
\<close>

theorem read_enq_poll_frame:
  "fst (read_enq (on_line (poll_frame q) @ rest)) = Some (uint q) \<and>
   (\<forall>i b. i \<in> {0, 1, 3, 4, 5, 6} \<and> b \<noteq> poll_frame q ! i \<longrightarrow>
      fst (read_enq (on_line ((poll_frame q)[i := b]) @ rest)) = None)"
  by (auto simp add: read_enq_bytes7 poll_frame_def on_line_def TRAILER_def)

theorem read_enq_poll_frame_witness:
  "(6::nat) \<in> {0, 1, 3, 4, 5, 6} \<and> (0x3D::byte) \<noteq> poll_frame 0x31 ! 6 \<and>
   fst (read_enq (on_line [0xAA, 0x05, 0x31, 0xCC, 0x33, 0xC3, 0x3C])) = Some 0x31 \<and>
   fst (read_enq (on_line [0xAA, 0x05, 0x31, 0xCC, 0x33, 0xC3, 0x3D])) = None"
proof -
  have h: "(6::nat) \<in> {0, 1, 3, 4, 5, 6} \<and> (0x3D::byte) \<noteq> poll_frame 0x31 ! 6"
    by (simp add: poll_frame_def TRAILER_def)
  note t = read_enq_poll_frame [of "0x31" "[]"]
  from t have a: "fst (read_enq (on_line (poll_frame 0x31) @ [])) = Some (uint (0x31::byte))"
    by (rule conjunct1)
  from t have "\<forall>i b. i \<in> {0, 1, 3, 4, 5, 6} \<and> b \<noteq> poll_frame 0x31 ! i \<longrightarrow>
      fst (read_enq (on_line ((poll_frame 0x31)[i := b]) @ [])) = None"
    by (rule conjunct2)
  with h have b: "fst (read_enq (on_line ((poll_frame 0x31)[6 := 0x3D]) @ [])) = None"
    by blast
  from a b h show ?thesis by (simp add: poll_frame_def TRAILER_def)
qed

text \<open>
  Claim C4, as amended. When the line supplies at least seven bytes without a timeout,
  \<open>read_enq\<close> takes one byte off it when the first is not \<open>AA\<close>, two when the first is
  \<open>AA\<close> and the second is not \<open>05\<close>, and seven otherwise, whether or not the trailer
  validates.
\<close>

theorem read_enq_consumed:
  "7 \<le> length bs \<Longrightarrow>
   consumed (on_line bs @ rest) =
     (if bs ! 0 \<noteq> 0xAA then 1 else if bs ! 1 \<noteq> 0x05 then 2 else 7)"
proof -
  assume "7 \<le> length bs"
  then obtain b1 b2 b3 b4 b5 b6 b7 cs where bs: "bs = b1 # b2 # b3 # b4 # b5 # b6 # b7 # cs"
    by (auto simp: Suc_le_length_iff eval_nat_numeral)
  show ?thesis
    by (simp add: consumed_def bs on_line_def read_enq_bytes7)
qed

theorem read_enq_consumed_witness:
  "consumed (on_line [0xAA, 0x05, 0x31, 0xCC, 0x33, 0xC3, 0x3C]) = 7 \<and>
   consumed (on_line [0xAA, 0x05, 0x31, 0xCC, 0x33, 0xC3, 0x00]) = 7 \<and>
   consumed (on_line [0xAA, 0x06, 0x31, 0xCC, 0x33, 0xC3, 0x3C]) = 2"
  using read_enq_consumed [of "[0xAA, 0x05, 0x31, 0xCC, 0x33, 0xC3, 0x3C]" "[]"]
    read_enq_consumed [of "[0xAA, 0x05, 0x31, 0xCC, 0x33, 0xC3, 0x00]" "[]"]
    read_enq_consumed [of "[0xAA, 0x06, 0x31, 0xCC, 0x33, 0xC3, 0x3C]" "[]"]
  by simp

text \<open>
  The claim as stated (seven bytes on every call) fails on a stream that starts with a
  byte other than \<open>AA\<close>: one byte is taken.
\<close>

theorem read_enq_consumed_counterexample:
  "consumed (on_line [0x00, 0xAA, 0x05, 0x31, 0xCC, 0x33, 0xC3, 0x3C]) \<noteq> 7"
  by (simp add: consumed_def on_line_def read_enq_def)

section \<open>Steady state: properties\<close>

lemma build_reply_ok:
  "0 \<le> t \<Longrightarrow> t < 256 \<Longrightarrow> 0 \<le> q \<Longrightarrow> q < 256 \<Longrightarrow>
   build_reply t q txt =
     Inr ([0xAA, word_of_int t, 0x00, word_of_int q] @ encode_latin1_ignore txt @ TRAILER)"
  by (simp add: build_reply_def)

lemma seq_for_table:
  "seq_for CPU = 0x32" "seq_for GPU = 0x33" "seq_for MEM = 0x34" "seq_for DSK = 0x35"
  "seq_for DAT = 0x36" "seq_for NET = 0x37" "seq_for VOL = 0x39" "seq_for BAT = 0x32"
  by (simp_all add: seq_for_def SEQ_FOR_def CPU_def GPU_def MEM_def DSK_def DAT_def NET_def
      VOL_def BAT_def)

lemma length_FULL_ROT: "length FULL_ROT = 8"
  by (simp add: FULL_ROT_def)

lemma FULL_ROT_cases:
  "i < 8 \<Longrightarrow> FULL_ROT ! i \<in> {CPU, GPU, MEM, DSK, DAT, NET, VOL, BAT}"
proof -
  assume "i < 8"
  then have "i \<in> {0, 1, 2, 3, 4, 5, 6, 7}" by auto
  then show ?thesis by (auto simp: FULL_ROT_def)
qed

lemma FULL_ROT_range:
  "i < 8 \<Longrightarrow> 0 \<le> FULL_ROT ! i \<and> FULL_ROT ! i < 256 \<and>
     0 \<le> seq_for (FULL_ROT ! i) \<and> seq_for (FULL_ROT ! i) < 256"
  using FULL_ROT_cases [of i] seq_for_table
  by (auto simp: CPU_def GPU_def MEM_def DSK_def DAT_def NET_def VOL_def BAT_def)

lemma steady_build_reply:
  "build_reply (FULL_ROT ! (idx mod 8)) (seq_for (FULL_ROT ! (idx mod 8)))
      (maker e (length (trace w)) (FULL_ROT ! (idx mod 8))) = Inr (steady_frame e idx w)"
  using FULL_ROT_range [of "idx mod 8"] by (simp add: build_reply_ok steady_frame_def Let_def)

lemma read_enq_poll: "read_enq (on_line (poll_frame q) @ rest) = (Some (uint q), rest)"
  by (simp add: read_enq_bytes7 poll_frame_def on_line_def TRAILER_def)

lemma steady_loop_poll:
  "steady_loop e c idx (w\<lparr>ser_in := on_line (poll_frame q) @ rest\<rparr>) =
   steady_loop e c ((idx + 1) mod 1000000)
     (emit [Write (steady_frame e idx w), Sleep (cfg_post_write_sleep c)] (w\<lparr>ser_in := rest\<rparr>))"
proof -
  have ne: "on_line (poll_frame q) \<noteq> []"
    by (simp add: on_line_def poll_frame_def)
  show ?thesis
    by (subst steady_loop.simps)
      (simp add: ne read_enq_poll length_FULL_ROT steady_build_reply [of idx e w] emit_def)
qed

lemma reply_steady_frame:
  "reply_tile (steady_frame e idx w) = FULL_ROT ! (idx mod 8) \<and>
   reply_seq (steady_frame e idx w) = seq_for (FULL_ROT ! (idx mod 8))"
  using FULL_ROT_range [of "idx mod 8"]
  by (simp add: steady_frame_def reply_tile_def reply_seq_def uint_word_of_int Let_def)


lemma served_emit_frame:
  "served (trace (emit [Write frm, Sleep d] w)) = served (trace w) @ [reply_tile frm]"
proof -
  have "replies (as @ [Write frm, Sleep d]) = replies as @ [frm]" for as
    by (induction as rule: replies.induct) simp_all
  then show ?thesis by (simp add: served_def emit_def)
qed

lemma answered_emit_frame:
  "answered (trace (emit [Write frm, Sleep d] w)) =
     answered (trace w) @ [(reply_tile frm, reply_seq frm)]"
proof -
  have "replies (as @ [Write frm, Sleep d]) = replies as @ [frm]" for as
    by (induction as rule: replies.induct) simp_all
  then show ?thesis by (simp add: answered_def emit_def)
qed

lemma steady_loop_end: "ser_in w = [] \<Longrightarrow> steady_loop e c idx w = Inr (idx, w)"
  by (subst steady_loop.simps) simp

lemma steady_frame_wrap: "steady_frame e (n mod 1000000) w = steady_frame e n w"
proof -
  have "n mod 1000000 mod 8 = n mod 8" by (rule mod_mod_cancel) simp
  then show ?thesis by (simp add: steady_frame_def)
qed

lemma upt_shift_map:
  "map (\<lambda>j. f (n + j)) [0..<Suc k] = f n # map (\<lambda>j. f (Suc n + j)) [0..<k]"
proof -
  have "[0..<Suc k] = 0 # map Suc [0..<k]"
    by (simp add: upt_conv_Cons map_Suc_upt del: upt_Suc)
  then show ?thesis by (simp add: comp_def del: upt_Suc)
qed

lemma steady_general:
  "\<exists>k w'. steady_loop_unbounded e c n w = Inr (n + k, w') \<and>
          steady_loop e c (n mod 1000000) w = Inr ((n + k) mod 1000000, w') \<and>
          served (trace w') = served (trace w) @ map (\<lambda>j. FULL_ROT ! ((n + j) mod 8)) [0..<k] \<and>
          k = length (polls (ser_in w)) \<and>
          answered (trace w') = answered (trace w) @
            map (\<lambda>j. (FULL_ROT ! ((n + j) mod 8), seq_for (FULL_ROT ! ((n + j) mod 8)))) [0..<k]"
proof (induction e c n w rule: steady_loop_unbounded.induct)
  case (1 e c n w)
  show ?case
  proof (cases "ser_in w = []")
    case True
    then have "steady_loop_unbounded e c n w = Inr (n + 0, w)"
      and "steady_loop e c (n mod 1000000) w = Inr ((n + 0) mod 1000000, w)"
      by (simp_all add: steady_loop.simps [of e c _ w] steady_loop_unbounded.simps [of e c n w])
    moreover from True have "polls (ser_in w) = []" by (simp add: polls.simps)
    ultimately show ?thesis by (intro exI [of _ 0] exI [of _ w]) simp
  next
    case False
    obtain x y where r: "(x, y) = read_enq (ser_in w)"
      by (cases "read_enq (ser_in w)") simp
    show ?thesis
    proof (cases x)
      case None
      from "1.IH"(1) [OF False r None] obtain k w' where
        h: "steady_loop_unbounded e c n (w\<lparr>ser_in := y\<rparr>) = Inr (n + k, w')"
          "steady_loop e c (n mod 1000000) (w\<lparr>ser_in := y\<rparr>) = Inr ((n + k) mod 1000000, w')"
          "served (trace w') = served (trace (w\<lparr>ser_in := y\<rparr>)) @
             map (\<lambda>j. FULL_ROT ! ((n + j) mod 8)) [0..<k]"
          "k = length (polls (ser_in (w\<lparr>ser_in := y\<rparr>)))"
          "answered (trace w') = answered (trace (w\<lparr>ser_in := y\<rparr>)) @
             map (\<lambda>j. (FULL_ROT ! ((n + j) mod 8), seq_for (FULL_ROT ! ((n + j) mod 8)))) [0..<k]"
        by blast
      have pl: "polls (ser_in w) = polls y"
        using False r [symmetric] None by (subst polls.simps) simp
      have "steady_loop_unbounded e c n w = Inr (n + k, w')"
        using False r [symmetric] None h(1) by (subst steady_loop_unbounded.simps) simp
      moreover have "steady_loop e c (n mod 1000000) w = Inr ((n + k) mod 1000000, w')"
        using False r [symmetric] None h(2) by (subst steady_loop.simps) simp
      ultimately show ?thesis using h(3,4,5) pl by (intro exI [of _ k] exI [of _ w']) simp
    next
      case (Some enq3)
      let ?frm = "steady_frame e n w"
      let ?w1 = "emit [Write ?frm, Sleep (cfg_post_write_sleep c)] (w\<lparr>ser_in := y\<rparr>)"
      have br: "build_reply (FULL_ROT ! (n mod length FULL_ROT))
          (seq_for (FULL_ROT ! (n mod length FULL_ROT)))
          (maker e (length (trace w)) (FULL_ROT ! (n mod length FULL_ROT))) = Inr ?frm"
        by (simp add: length_FULL_ROT steady_build_reply)
      from "1.IH"(2) [OF False r Some refl refl refl br] obtain k w' where
        h: "steady_loop_unbounded e c (n + 1) ?w1 = Inr (n + 1 + k, w')"
          "steady_loop e c ((n + 1) mod 1000000) ?w1 = Inr ((n + 1 + k) mod 1000000, w')"
          "served (trace w') = served (trace ?w1) @
             map (\<lambda>j. FULL_ROT ! ((n + 1 + j) mod 8)) [0..<k]"
          "k = length (polls (ser_in ?w1))"
          "answered (trace w') = answered (trace ?w1) @
             map (\<lambda>j. (FULL_ROT ! ((n + 1 + j) mod 8), seq_for (FULL_ROT ! ((n + 1 + j) mod 8))))
               [0..<k]"
        by blast
      have "polls (ser_in w) = enq3 # polls y"
        using False r [symmetric] Some by (subst polls.simps) simp
      with h(4) have pl: "Suc k = length (polls (ser_in w))" by (simp add: emit_def)
      have a: "steady_loop_unbounded e c n w = Inr (n + Suc k, w')"
        using False r [symmetric] Some h(1) br by (subst steady_loop_unbounded.simps) simp
      have br': "build_reply (FULL_ROT ! (n mod 1000000 mod length FULL_ROT))
          (seq_for (FULL_ROT ! (n mod 1000000 mod length FULL_ROT)))
          (maker e (length (trace w)) (FULL_ROT ! (n mod 1000000 mod length FULL_ROT))) = Inr ?frm"
        using steady_build_reply [of "n mod 1000000" e w]
        by (simp add: length_FULL_ROT steady_frame_wrap)
      have "(n mod 1000000 + 1) mod 1000000 = (n + 1) mod 1000000"
        by (simp add: mod_Suc_eq)
      then have b: "steady_loop e c (n mod 1000000) w = Inr ((n + Suc k) mod 1000000, w')"
        using False r [symmetric] Some h(2) br' by (subst steady_loop.simps) simp
      have "served (trace ?w1) = served (trace w) @ [FULL_ROT ! (n mod 8)]"
        using served_emit_frame [of ?frm _ "w\<lparr>ser_in := y\<rparr>"] reply_steady_frame [of e n w]
        by simp
      with h(3) have d: "served (trace w') = served (trace w) @
           map (\<lambda>j. FULL_ROT ! ((n + j) mod 8)) [0..<Suc k]"
        using upt_shift_map [of "\<lambda>i. FULL_ROT ! (i mod 8)" n k] by simp
      have "answered (trace ?w1) =
          answered (trace w) @ [(FULL_ROT ! (n mod 8), seq_for (FULL_ROT ! (n mod 8)))]"
        using answered_emit_frame [of ?frm _ "w\<lparr>ser_in := y\<rparr>"] reply_steady_frame [of e n w]
        by simp
      with h(5) have an: "answered (trace w') = answered (trace w) @
           map (\<lambda>j. (FULL_ROT ! ((n + j) mod 8), seq_for (FULL_ROT ! ((n + j) mod 8))))
             [0..<Suc k]"
        using upt_shift_map [of "\<lambda>i. (FULL_ROT ! (i mod 8), seq_for (FULL_ROT ! (i mod 8)))" n k]
        by simp
      from a b d pl an show ?thesis by blast
    qed
  qed
qed

text \<open>
  Claim C1. The tiles of the rotation and their sequence codes are CPU 0x53 '2',
  GPU 0x36 '3', MEM 0x49 '4', DSK 0x4F '5', DAT 0x6B '6', NET 0x27 '7', VOL 0x10 '9',
  BAT 0x1A '2'. For every rotation index there is one frame, whose tile is the
  rotation's entry at \<open>idx mod 8\<close> and whose sequence byte is that tile's code, that
  the steady state writes to the line in reply to a valid poll, whatever sequence byte
  \<open>q\<close> the poll carries: with the poll alone on the line the loop returns the next index
  and the world with that frame (and the sleep after it) added to the trace, and with
  more input after the poll it goes on from there. Over a whole run from the index
  \<open>n mod 1000000\<close>, the frames added to the trace are one for every valid poll on the
  line, the \<open>j\<close>-th with the tile \<open>FULL_ROT ! ((n + j) mod 8)\<close> and that tile's code as
  its sequence byte.
\<close>

theorem steady_reply_fixed_seq:
  "map (\<lambda>t. (t, seq_for t)) FULL_ROT =
     [(0x53, of_char (CHR ''2'')), (0x36, of_char (CHR ''3'')), (0x49, of_char (CHR ''4'')),
      (0x4F, of_char (CHR ''5'')), (0x6B, of_char (CHR ''6'')), (0x27, of_char (CHR ''7'')),
      (0x10, of_char (CHR ''9'')), (0x1A, of_char (CHR ''2''))] \<and>
   (\<exists>frm. reply_tile frm = FULL_ROT ! (idx mod 8) \<and>
          reply_seq frm = seq_for (FULL_ROT ! (idx mod 8)) \<and>
          (\<forall>q. steady_loop e c idx (w\<lparr>ser_in := on_line (poll_frame q)\<rparr>) =
                 Inr ((idx + 1) mod 1000000,
                      w\<lparr>ser_in := [],
                        trace := trace w @ [Write frm, Sleep (cfg_post_write_sleep c)]\<rparr>)) \<and>
          (\<forall>q rest.
             steady_loop e c idx (w\<lparr>ser_in := on_line (poll_frame q) @ rest\<rparr>) =
             steady_loop e c ((idx + 1) mod 1000000)
               (w\<lparr>ser_in := rest,
                 trace := trace w @ [Write frm, Sleep (cfg_post_write_sleep c)]\<rparr>))) \<and>
   (\<exists>idx' w'. steady_loop e c (n mod 1000000) w = Inr (idx', w') \<and>
          answered (trace w') = answered (trace w) @
            map (\<lambda>j. (FULL_ROT ! ((n + j) mod 8), seq_for (FULL_ROT ! ((n + j) mod 8))))
              [0..<length (polls (ser_in w))])"
proof (intro conjI)
  show "map (\<lambda>t. (t, seq_for t)) FULL_ROT =
     [(0x53, of_char (CHR ''2'')), (0x36, of_char (CHR ''3'')), (0x49, of_char (CHR ''4'')),
      (0x4F, of_char (CHR ''5'')), (0x6B, of_char (CHR ''6'')), (0x27, of_char (CHR ''7'')),
      (0x10, of_char (CHR ''9'')), (0x1A, of_char (CHR ''2''))]"
    by (simp add: FULL_ROT_def seq_for_table)
      (simp add: CPU_def GPU_def MEM_def DSK_def DAT_def NET_def VOL_def BAT_def)
next
  let ?frm = "steady_frame e idx w"
  have step: "steady_loop e c idx (w\<lparr>ser_in := on_line (poll_frame q) @ rest\<rparr>) =
      steady_loop e c ((idx + 1) mod 1000000)
        (w\<lparr>ser_in := rest, trace := trace w @ [Write ?frm, Sleep (cfg_post_write_sleep c)]\<rparr>)"
    for q rest
    using steady_loop_poll [where e = e and c = c and idx = idx and w = w and q = q
        and rest = rest]
    by (simp add: emit_def)
  have one: "steady_loop e c idx (w\<lparr>ser_in := on_line (poll_frame q)\<rparr>) =
      Inr ((idx + 1) mod 1000000,
           w\<lparr>ser_in := [], trace := trace w @ [Write ?frm, Sleep (cfg_post_write_sleep c)]\<rparr>)"
    for q
    using step [of q "[]"] by (simp add: steady_loop_end)
  from one step reply_steady_frame [of e idx w]
  show "\<exists>frm. reply_tile frm = FULL_ROT ! (idx mod 8) \<and>
          reply_seq frm = seq_for (FULL_ROT ! (idx mod 8)) \<and>
          (\<forall>q. steady_loop e c idx (w\<lparr>ser_in := on_line (poll_frame q)\<rparr>) =
                 Inr ((idx + 1) mod 1000000,
                      w\<lparr>ser_in := [],
                        trace := trace w @ [Write frm, Sleep (cfg_post_write_sleep c)]\<rparr>)) \<and>
          (\<forall>q rest.
             steady_loop e c idx (w\<lparr>ser_in := on_line (poll_frame q) @ rest\<rparr>) =
             steady_loop e c ((idx + 1) mod 1000000)
               (w\<lparr>ser_in := rest,
                 trace := trace w @ [Write frm, Sleep (cfg_post_write_sleep c)]\<rparr>))"
    by (intro exI [of _ ?frm]) simp
next
  from steady_general [of e c n w] obtain k w' where
    "steady_loop e c (n mod 1000000) w = Inr ((n + k) mod 1000000, w')"
    "k = length (polls (ser_in w))"
    "answered (trace w') = answered (trace w) @
       map (\<lambda>j. (FULL_ROT ! ((n + j) mod 8), seq_for (FULL_ROT ! ((n + j) mod 8)))) [0..<k]"
    by blast
  then show "\<exists>idx' w'. steady_loop e c (n mod 1000000) w = Inr (idx', w') \<and>
          answered (trace w') = answered (trace w) @
            map (\<lambda>j. (FULL_ROT ! ((n + j) mod 8), seq_for (FULL_ROT ! ((n + j) mod 8))))
              [0..<length (polls (ser_in w))]"
    by (intro exI [of _ "(n + k) mod 1000000"] exI [of _ w']) simp
qed

text \<open>
  Claim C10. From index 0, the steady state with the index wrapped at 1,000,000 and
  the scheduler with an unbounded index return the same world, after one reply to each
  of the \<open>k\<close> valid polls on the line (the wrapped index is \<open>k mod 1000000\<close>), and the
  tile of the \<open>n\<close>-th reply is \<open>FULL_ROT ! (n mod 8)\<close> for every \<open>n < k\<close>.
\<close>

theorem steady_round_robin:
  "\<exists>k w'. steady_loop e c 0 w = Inr (k mod 1000000, w') \<and>
          steady_loop_unbounded e c 0 w = Inr (k, w') \<and>
          served (trace w') = served (trace w) @ map (\<lambda>n. FULL_ROT ! (n mod 8)) [0..<k] \<and>
          k = length (polls (ser_in w))"
  using steady_general [of e c 0 w] by auto

section \<open>Activation: properties\<close>








lemma quiet_append: "quiet (as @ bs) \<longleftrightarrow> quiet as \<and> quiet bs"
  by (induction as rule: quiet.induct) simp_all

















section \<open>Rate formatting: properties\<close>

lemma py_round_near: "\<bar>of_int (py_round x) - x\<bar> \<le> 1 / 2"
  unfolding py_round_def Let_def by (auto; linarith)

lemma py_round_nonneg: "0 \<le> x \<Longrightarrow> 0 \<le> py_round x"
  unfolding py_round_def Let_def by auto

lemma is_digit_digit_char: "d < 10 \<Longrightarrow> is_digit (digit_char d)"
proof -
  assume "d < 10"
  then have "d \<in> {0, 1, 2, 3, 4, 5, 6, 7, 8, 9}" by auto
  then show ?thesis by (auto simp: is_digit_def digit_char_def)
qed

lemma str_nat_digits: "str_nat n \<noteq> [] \<and> list_all is_digit (str_nat n)"
proof (induction n rule: str_nat.induct)
  case (1 n)
  show ?case
  proof (cases "n < 10")
    case True
    then show ?thesis by (subst str_nat.simps, subst (2) str_nat.simps) (simp add: is_digit_digit_char)
  next
    case False
    with 1 show ?thesis
      by (subst str_nat.simps, subst (2) str_nat.simps) (simp add: is_digit_digit_char)
  qed
qed

lemma str_nat_small: "n < 10 \<Longrightarrow> str_nat n = [digit_char n]"
  by (subst str_nat.simps) simp

lemma py_round_int: "py_round (of_int k) = k"
  by (simp add: py_round_def)

lemma fmt_rate_examples:
  "fmt_rate (Some 512) = ''512.0 K/s''" "fmt_rate (Some 2048) = ''2.0 M/s''"
  "fmt_rate (Some 2097152) = ''2.0 G/s''" "fmt_rate (Some 1024) = ''1.0 M/s''"
proof -
  have r: "py_round 5120 = 5120" "py_round 20 = 20" "py_round 10 = 10"
    using py_round_int [of 5120] py_round_int [of 20] py_round_int [of 10] by simp_all
  have s1: "str_nat 1 = ''1''"
    by (subst str_nat.simps) (simp add: digit_char_def)
  have s: "str_nat 512 = ''512''" "str_nat 2 = ''2''"
    by (simp_all add: str_nat.simps [of 512] str_nat.simps [of 51] str_nat.simps [of 5]
        str_nat.simps [of 2] digit_char_def)
  show "fmt_rate (Some 512) = ''512.0 K/s''" "fmt_rate (Some 2048) = ''2.0 M/s''"
    "fmt_rate (Some 2097152) = ''2.0 G/s''" "fmt_rate (Some 1024) = ''1.0 M/s''"
    using s1 by (simp_all add: fmt_rate_def fmt_1f_def r s digit_char_def Let_def)
qed

lemma fmt_1f_nonneg:
  assumes v: "0 \<le> v"
  shows "\<exists>n. fmt_1f v = str_nat (n div 10) @ ''.'' @ [digit_char (n mod 10)] \<and>
      \<bar>real n / 10 - v\<bar> \<le> 1 / 20 \<and>
      str_nat (n div 10) \<noteq> [] \<and> list_all is_digit (str_nat (n div 10)) \<and>
      is_digit (digit_char (n mod 10))"
proof -
  let ?n = "nat (py_round (\<bar>v\<bar> * 10))"
  have nn: "0 \<le> py_round (v * 10)" using v by (intro py_round_nonneg) simp
  have "\<bar>of_int (py_round (v * 10)) - v * 10\<bar> \<le> 1 / 2" by (rule py_round_near)
  moreover have "real ?n = of_int (py_round (v * 10))" using nn v by simp
  ultimately have a: "\<bar>real ?n / 10 - v\<bar> \<le> 1 / 20" by linarith
  have b: "fmt_1f v = str_nat (?n div 10) @ ''.'' @ [digit_char (?n mod 10)]"
    using v by (simp add: fmt_1f_def Let_def)
  have c: "str_nat (?n div 10) \<noteq> []" "list_all is_digit (str_nat (?n div 10))"
    using str_nat_digits [of "?n div 10"] by simp_all
  have d: "is_digit (digit_char (?n mod 10))" by (rule is_digit_digit_char) simp
  from a b c d show ?thesis by (intro exI [of _ ?n] conjI)
qed

lemma fmt_rate_unfold: "fmt_rate (Some r) = fmt_1f (rate_scaled r) @ rate_unit r"
  by (simp add: fmt_rate_def rate_scaled_def rate_unit_def Let_def)

lemma rate_scaled_nonneg: "0 \<le> r \<Longrightarrow> 0 \<le> rate_scaled r"
  by (simp add: rate_scaled_def)

text \<open>
  Claim C9. For a rate \<open>r \<ge> 0\<close> in KB/s, \<open>_fmt_rate\<close> returns a non-empty run of
  digits, a point, one digit and the unit: \<open>K/s\<close> below 1024, \<open>M/s\<close> below 1024 * 1024
  (the rate divided by 1024), \<open>G/s\<close> otherwise (divided by 1024 twice); the number
  printed, \<open>n / 10\<close>, is within 0.05 of the scaled rate. 512 gives \<open>512.0 K/s\<close>, 2048
  gives \<open>2.0 M/s\<close>, 2097152 gives \<open>2.0 G/s\<close> and 1024 gives \<open>1.0 M/s\<close>.
\<close>

theorem fmt_rate_scaling:
  "(0 \<le> r \<longrightarrow>
      (\<exists>n. fmt_rate (Some r) =
             str_nat (n div 10) @ ''.'' @ [digit_char (n mod 10)] @ rate_unit r \<and>
           \<bar>real n / 10 - rate_scaled r\<bar> \<le> 1 / 20 \<and>
           str_nat (n div 10) \<noteq> [] \<and> list_all is_digit (str_nat (n div 10)) \<and>
           is_digit (digit_char (n mod 10)))) \<and>
   fmt_rate (Some 512) = ''512.0 K/s'' \<and> fmt_rate (Some 2048) = ''2.0 M/s'' \<and>
   fmt_rate (Some 2097152) = ''2.0 G/s'' \<and> fmt_rate (Some 1024) = ''1.0 M/s''"
proof -
  have "\<exists>n. fmt_rate (Some r) =
             str_nat (n div 10) @ ''.'' @ [digit_char (n mod 10)] @ rate_unit r \<and>
           \<bar>real n / 10 - rate_scaled r\<bar> \<le> 1 / 20 \<and>
           str_nat (n div 10) \<noteq> [] \<and> list_all is_digit (str_nat (n div 10)) \<and>
           is_digit (digit_char (n mod 10))" if r: "0 \<le> r"
  proof -
    from fmt_1f_nonneg [OF rate_scaled_nonneg [OF r]] obtain n where
      n: "fmt_1f (rate_scaled r) = str_nat (n div 10) @ ''.'' @ [digit_char (n mod 10)]"
        "\<bar>real n / 10 - rate_scaled r\<bar> \<le> 1 / 20"
        "str_nat (n div 10) \<noteq> []" "list_all is_digit (str_nat (n div 10))"
        "is_digit (digit_char (n mod 10))"
      by blast
    have "fmt_rate (Some r) = str_nat (n div 10) @ ''.'' @ [digit_char (n mod 10)] @ rate_unit r"
      by (simp add: fmt_rate_unfold n(1))
    with n show ?thesis by (intro exI [of _ n] conjI)
  qed
  with fmt_rate_examples show ?thesis by (intro conjI impI)
qed

theorem fmt_rate_scaling_witness:
  "(0::real) \<le> 1536 \<and>
   (\<exists>n. fmt_rate (Some 1536) = str_nat (n div 10) @ ''.'' @ [digit_char (n mod 10)] @ '' M/s'' \<and>
        \<bar>real n / 10 - 3 / 2\<bar> \<le> 1 / 20)"
proof -
  have h: "(0::real) \<le> 1536" by simp
  have u: "rate_unit 1536 = '' M/s''" "rate_scaled 1536 = 3 / 2"
    by (simp_all add: rate_unit_def rate_scaled_def)
  from fmt_rate_scaling [of 1536] h obtain n where
    a: "fmt_rate (Some 1536) =
          str_nat (n div 10) @ ''.'' @ [digit_char (n mod 10)] @ rate_unit 1536"
    and b: "\<bar>real n / 10 - rate_scaled 1536\<bar> \<le> 1 / 20"
    by blast
  from a have a': "fmt_rate (Some 1536) =
      str_nat (n div 10) @ ''.'' @ [digit_char (n mod 10)] @ '' M/s''"
    unfolding u(1) .
  from b have b': "\<bar>real n / 10 - 3 / 2\<bar> \<le> 1 / 20"
    unfolding u(2) .
  from a' b' h show ?thesis by (intro conjI exI [of _ n])
qed

section \<open>Fan speed: properties\<close>

lemma py_lower_names:
  "py_lower ''auto'' = ''auto''" "py_lower ''hwmon'' = ''hwmon''" "py_lower ''nvidia'' = ''nvidia''"
  by (simp_all add: py_lower_def lower_char_def less_eq_char_def)

lemma hwmon_scan_positive:
  "(case best of None \<Rightarrow> True | Some b \<Rightarrow> 0 < b) \<Longrightarrow>
   (case hwmon_scan best fans of None \<Rightarrow> True | Some b \<Rightarrow> 0 < b)"
  by (induction best fans rule: hwmon_scan.induct) (auto split: option.splits)

lemma fan_rpm_from_hwmon_positive: "fan_rpm_from_hwmon hs = Some v \<Longrightarrow> 0 < v"
  using hwmon_scan_positive [of None "concat hs"] by (simp add: fan_rpm_from_hwmon_def)

lemma fan_rpm_from_nvidia_nonneg:
  "fan_rpm_from_nvidia out m = Some v \<Longrightarrow> (\<forall>p. out = Percent p \<longrightarrow> 0 \<le> p) \<Longrightarrow> 0 \<le> v"
  by (cases out) (auto simp: fan_rpm_from_nvidia_def intro!: py_round_nonneg)

text \<open>
  Claim C5. For each of the preferences \<open>auto\<close>, \<open>hwmon\<close> and \<open>nvidia\<close>, \<open>fan_rpm\<close>
  is the value of the preferred source (hwmon for \<open>auto\<close>) when it has one, else the
  value of the other source, else -1. A duty of 0 percent is the value 0, not absence.
  With a duty that is not negative, the result is -1 exactly when neither source has a
  value. The function has no error result: every exception of the sources is caught.
\<close>

theorem fan_rpm_fallback:
  assumes "prefer \<in> {''auto'', ''hwmon'', ''nvidia''}"
  shows "fan_rpm prefer max_rpm env =
           (if prefer = ''nvidia''
            then first_of (fan_rpm_from_nvidia (smi env) max_rpm) (fan_rpm_from_hwmon (hwmon env))
            else first_of (fan_rpm_from_hwmon (hwmon env)) (fan_rpm_from_nvidia (smi env) max_rpm)) \<and>
         fan_rpm_from_nvidia (Percent 0) max_rpm = Some 0 \<and>
         ((\<forall>p. smi env = Percent p \<longrightarrow> 0 \<le> p) \<longrightarrow>
            (fan_rpm prefer max_rpm env = - 1 \<longleftrightarrow>
               fan_rpm_from_hwmon (hwmon env) = None \<and>
               fan_rpm_from_nvidia (smi env) max_rpm = None))"
proof -
  let ?hw = "fan_rpm_from_hwmon (hwmon env)"
  let ?nv = "fan_rpm_from_nvidia (smi env) max_rpm"
  have a: "fan_rpm prefer max_rpm env =
      (if prefer = ''nvidia'' then first_of ?nv ?hw else first_of ?hw ?nv)"
    using assms by (auto simp: fan_rpm_def first_of_def py_lower_names Let_def)
  have b: "fan_rpm_from_nvidia (Percent 0) max_rpm = Some 0"
    by (simp add: fan_rpm_from_nvidia_def py_round_def)
  have c: "fan_rpm prefer max_rpm env = - 1 \<longleftrightarrow> ?hw = None \<and> ?nv = None"
    if nn: "\<forall>p. smi env = Percent p \<longrightarrow> 0 \<le> p"
  proof -
    have h: "?hw = Some v \<Longrightarrow> v \<noteq> - 1" for v
      using fan_rpm_from_hwmon_positive [of "hwmon env" v] by auto
    have n: "?nv = Some v \<Longrightarrow> v \<noteq> - 1" for v
      using fan_rpm_from_nvidia_nonneg [of "smi env" max_rpm v] nn by auto
    show ?thesis
      unfolding a using h n by (cases ?hw; cases ?nv) (auto simp: first_of_def)
  qed
  from a b c show ?thesis by blast
qed

theorem fan_rpm_fallback_witness:
  "''auto'' \<in> {''auto'', ''hwmon'', ''nvidia''} \<and>
   smi fan_env0 = Percent 50 \<and> (0::real) \<le> 50 \<and>
   fan_rpm ''auto'' 4000 fan_env0 = 2000 \<and> fan_rpm ''auto'' 4000 fan_env0 \<noteq> - 1 \<and>
   fan_rpm_from_hwmon (hwmon fan_env0) = None \<and>
   fan_rpm_from_nvidia (smi fan_env0) 4000 = Some 2000"
proof -
  have h: "''auto'' \<in> {''auto'', ''hwmon'', ''nvidia''}" by simp
  have nn: "\<forall>p. smi fan_env0 = Percent p \<longrightarrow> 0 \<le> p" by (simp add: fan_env0_def)
  have hw: "fan_rpm_from_hwmon (hwmon fan_env0) = None"
    by (simp add: fan_env0_def fan_rpm_from_hwmon_def)
  have nv: "fan_rpm_from_nvidia (smi fan_env0) 4000 = Some 2000"
    using py_round_int [of 2000] by (simp add: fan_env0_def fan_rpm_from_nvidia_def)
  note t = fan_rpm_fallback [OF h, of 4000 fan_env0]
  from t have "fan_rpm ''auto'' 4000 fan_env0 = 2000"
    by (simp add: hw nv first_of_def)
  moreover from t nn have "fan_rpm ''auto'' 4000 fan_env0 \<noteq> - 1"
    by (simp add: hw nv)
  moreover have "smi fan_env0 = Percent 50" by (simp add: fan_env0_def)
  ultimately show ?thesis using h hw nv by simp
qed

section \<open>Network interface picker: properties\<close>

lemma sort_reverse_desc: "sorted_wrt (\<lambda>a b. b \<le> a) (sort_reverse xs)"
  by (simp add: sort_reverse_def sorted_wrt_rev)

lemma set_sort_reverse: "set (sort_reverse xs) = set xs"
  by (simp add: sort_reverse_def)

lemma first_positive_none: "(\<forall>t \<in> set ts. fst t \<le> 0) \<Longrightarrow> first_positive ts = None"
  by (induction ts rule: first_positive.induct) auto

lemma rank_entry_le:
  "rank_entry env d \<le> rank_entry env n \<longleftrightarrow> outranks env n d"
  by (auto simp: rank_entry_def outranks_def score_def iface_info_def Let_def less_eq_prod_def)

lemma rank_entry_parts:
  "fst (rank_entry env i) = score env i" "snd (snd (rank_entry env i)) = i"
  by (simp_all add: rank_entry_def score_def iface_info_def Let_def)

lemma outranks_score: "outranks env n d \<Longrightarrow> score env d \<le> score env n"
  by (auto simp: outranks_def)

lemma first_positive_ranked_none:
  assumes "\<forall>x \<in> set xs. \<not> 0 < score env x"
  shows "first_positive (sort_reverse (map (rank_entry env) xs)) = None"
proof (rule first_positive_none)
  show "\<forall>t \<in> set (sort_reverse (map (rank_entry env) xs)). fst t \<le> 0"
    using assms by (auto simp: set_sort_reverse rank_entry_parts)
qed

lemma first_positive_ranked_some:
  assumes "\<exists>x \<in> set xs. 0 < score env x"
  shows "\<exists>n. first_positive (sort_reverse (map (rank_entry env) xs)) = Some n \<and>
           n \<in> set xs \<and> 0 < score env n \<and> (\<forall>x \<in> set xs. outranks env n x)"
proof -
  let ?ys = "sort_reverse (map (rank_entry env) xs)"
  from assms have "set ?ys \<noteq> {}" by (auto simp: set_sort_reverse)
  then obtain y ys' where ys: "?ys = y # ys'" by (cases ?ys) auto
  have "y \<in> set ?ys" by (simp add: ys)
  then obtain n where n: "n \<in> set xs" "y = rank_entry env n"
    by (auto simp: set_sort_reverse)
  have desc: "\<forall>t \<in> set ys'. t \<le> y"
    using sort_reverse_desc [of "map (rank_entry env) xs"] by (simp add: ys)
  have all: "outranks env n x" if "x \<in> set xs" for x
  proof -
    from that have "rank_entry env x \<in> set ?ys" by (simp add: set_sort_reverse)
    with desc have "rank_entry env x \<le> y" by (auto simp: ys)
    then show ?thesis by (simp add: n(2) rank_entry_le)
  qed
  from assms obtain x where x: "x \<in> set xs" "0 < score env x" by blast
  with outranks_score [OF all [OF x(1)]] have pos: "0 < score env n" by simp
  obtain sc wired nm where y: "y = (sc, wired, nm)" by (cases y) auto
  with n(2) rank_entry_parts [of env n] have "sc = score env n" "nm = n"
    by (metis fst_conv, metis snd_conv)
  with pos have "first_positive ?ys = Some n" by (simp add: ys y)
  with n(1) pos all show ?thesis by blast
qed

text \<open>
  Claim C6, as amended. An interface scores 2 when up with carrier, 1 when up only, 0
  when down, plus 1 when it is not wireless. When a default-route interface scores
  above 0, the picker returns a default-route interface that outranks every other one:
  none scores higher, and a tie in the score goes to the wired interface, then to the
  greater name (not to the one the routing table lists first). Otherwise the same holds
  over the interfaces of \<open>/sys/class/net\<close> without \<open>lo\<close>, when one of them scores
  above 0; otherwise the picker returns the first of these in alphabetical order, when
  there is one.
\<close>

theorem pick_iface_ranking:
  "score env i =
     (if operstate_up env i \<and> has_carrier env i then 2 else if operstate_up env i then 1 else 0)
       + (if has_wireless_dir env i then 0 else 1) \<and>
   ((\<exists>d \<in> set (default_route_ifaces env). 0 < score env d) \<longrightarrow>
      (\<exists>n. pick_iface None env = Some n \<and> n \<in> set (default_route_ifaces env) \<and>
           (\<forall>d \<in> set (default_route_ifaces env). outranks env n d))) \<and>
   (\<not> (\<exists>d \<in> set (default_route_ifaces env). 0 < score env d) \<and>
    (\<exists>c \<in> set (list_candidate_ifaces env). 0 < score env c) \<longrightarrow>
      (\<exists>n. pick_iface None env = Some n \<and> n \<in> set (list_candidate_ifaces env) \<and>
           (\<forall>c \<in> set (list_candidate_ifaces env). outranks env n c))) \<and>
   (\<not> (\<exists>d \<in> set (default_route_ifaces env). 0 < score env d) \<and>
    \<not> (\<exists>c \<in> set (list_candidate_ifaces env). 0 < score env c) \<longrightarrow>
      pick_iface None env =
        (case list_candidate_ifaces env of [] \<Rightarrow> None | p # rest \<Rightarrow> Some p)) \<and>
   sorted (list_candidate_ifaces env) \<and> ''lo'' \<notin> set (list_candidate_ifaces env)"
proof -
  let ?ds = "default_route_ifaces env" and ?cs = "list_candidate_ifaces env"
  have a: "score env i =
     (if operstate_up env i \<and> has_carrier env i then 2 else if operstate_up env i then 1 else 0)
       + (if has_wireless_dir env i then 0 else 1)"
    by (simp add: score_def score_of_def iface_info_def is_wireless_def)
  have b: "\<exists>n. pick_iface None env = Some n \<and> n \<in> set ?ds \<and> (\<forall>d \<in> set ?ds. outranks env n d)"
    if "\<exists>d \<in> set ?ds. 0 < score env d"
  proof -
    from first_positive_ranked_some [OF that] obtain n where
      "first_positive (sort_reverse (map (rank_entry env) ?ds)) = Some n"
      "n \<in> set ?ds" "\<forall>d \<in> set ?ds. outranks env n d"
      by blast
    then show ?thesis by (intro exI [of _ n]) (simp add: pick_iface_def truthy_def)
  qed
  have c: "\<exists>n. pick_iface None env = Some n \<and> n \<in> set ?cs \<and> (\<forall>c \<in> set ?cs. outranks env n c)"
    if "\<not> (\<exists>d \<in> set ?ds. 0 < score env d)" "\<exists>c \<in> set ?cs. 0 < score env c"
  proof -
    from that(1) have "first_positive (sort_reverse (map (rank_entry env) ?ds)) = None"
      by (intro first_positive_ranked_none) simp
    moreover from first_positive_ranked_some [OF that(2)] obtain n where
      "first_positive (sort_reverse (map (rank_entry env) ?cs)) = Some n"
      "n \<in> set ?cs" "\<forall>c \<in> set ?cs. outranks env n c"
      by blast
    ultimately show ?thesis by (intro exI [of _ n]) (simp add: pick_iface_def truthy_def)
  qed
  have d: "pick_iface None env = (case ?cs of [] \<Rightarrow> None | p # rest \<Rightarrow> Some p)"
    if "\<not> (\<exists>d \<in> set ?ds. 0 < score env d)" "\<not> (\<exists>c \<in> set ?cs. 0 < score env c)"
  proof -
    from that(1) have "first_positive (sort_reverse (map (rank_entry env) ?ds)) = None"
      by (intro first_positive_ranked_none) simp
    moreover from that(2) have "first_positive (sort_reverse (map (rank_entry env) ?cs)) = None"
      by (intro first_positive_ranked_none) simp
    ultimately show ?thesis by (simp add: pick_iface_def truthy_def)
  qed
  have e: "sorted ?cs \<and> ''lo'' \<notin> set ?cs"
    by (simp add: list_candidate_ifaces_def sorted_wrt_filter split: option.splits)
  from a b c d e show ?thesis by (intro conjI impI) blast+
qed

lemma example_env_facts:
  "default_route_ifaces tie_env = [''eth0'', ''eth1'']"
  "default_route_ifaces no_route_env = []"
  "list_candidate_ifaces no_route_env = [''eth0'', ''wlan0'']"
  "default_route_ifaces all_down_env = [''wlan1'']"
  "list_candidate_ifaces all_down_env = [''wlan0'', ''wlan1'']"
  "score tie_env i = 3" "score all_down_env i = 0"
  "score no_route_env ''eth0'' = 3" "score no_route_env ''wlan0'' = 2"
  "\<not> is_wireless tie_env i" "is_wireless no_route_env i \<longleftrightarrow> i = ''wlan0''"
  by (simp_all add: default_route_ifaces_def list_candidate_ifaces_def tie_env_def
      no_route_env_def all_down_env_def score_def score_of_def iface_info_def is_wireless_def)

theorem pick_iface_ranking_witness:
  "(\<exists>d \<in> set (default_route_ifaces tie_env). 0 < score tie_env d) \<and>
   pick_iface None tie_env = Some ''eth1'' \<and>
   outranks tie_env ''eth1'' ''eth0'' \<and>
   \<not> (\<exists>d \<in> set (default_route_ifaces no_route_env). 0 < score no_route_env d) \<and>
   (\<exists>c \<in> set (list_candidate_ifaces no_route_env). 0 < score no_route_env c) \<and>
   pick_iface None no_route_env = Some ''eth0'' \<and>
   outranks no_route_env ''eth0'' ''wlan0'' \<and>
   \<not> (\<exists>d \<in> set (default_route_ifaces all_down_env). 0 < score all_down_env d) \<and>
   \<not> (\<exists>c \<in> set (list_candidate_ifaces all_down_env). 0 < score all_down_env c) \<and>
   pick_iface None all_down_env = Some ''wlan0''"
proof -
  note f = example_env_facts
  have h1: "\<exists>d \<in> set (default_route_ifaces tie_env). 0 < score tie_env d"
    by (auto simp: f)
  have h2: "\<not> (\<exists>d \<in> set (default_route_ifaces no_route_env). 0 < score no_route_env d)"
    "\<exists>c \<in> set (list_candidate_ifaces no_route_env). 0 < score no_route_env c"
    by (auto simp: f)
  have h3: "\<not> (\<exists>d \<in> set (default_route_ifaces all_down_env). 0 < score all_down_env d)"
    "\<not> (\<exists>c \<in> set (list_candidate_ifaces all_down_env). 0 < score all_down_env c)"
    by (simp_all add: f)
  from pick_iface_ranking [of tie_env "''eth0''"] h1 obtain n where
    n: "pick_iface None tie_env = Some n" "n \<in> set (default_route_ifaces tie_env)"
      "\<forall>d \<in> set (default_route_ifaces tie_env). outranks tie_env n d"
    by blast
  have "\<not> outranks tie_env ''eth0'' ''eth1''"
    by (simp add: outranks_def f)
  with n(2,3) have "n = ''eth1''" by (auto simp: f)
  with n have a: "pick_iface None tie_env = Some ''eth1''" "outranks tie_env ''eth1'' ''eth0''"
    by (simp_all add: f)
  from pick_iface_ranking [of no_route_env "''eth0''"] h2 obtain n2 where
    n2: "pick_iface None no_route_env = Some n2" "n2 \<in> set (list_candidate_ifaces no_route_env)"
      "\<forall>c \<in> set (list_candidate_ifaces no_route_env). outranks no_route_env n2 c"
    by blast
  have "\<not> outranks no_route_env ''wlan0'' ''eth0''"
    by (simp add: outranks_def f)
  with n2(2,3) have "n2 = ''eth0''" by (auto simp: f)
  with n2 have b: "pick_iface None no_route_env = Some ''eth0''"
    "outranks no_route_env ''eth0'' ''wlan0''"
    by (simp_all add: f)
  from pick_iface_ranking [of all_down_env "''eth0''"] h3
  have "pick_iface None all_down_env =
      (case list_candidate_ifaces all_down_env of [] \<Rightarrow> None | p # rest \<Rightarrow> Some p)"
    by blast
  then have c: "pick_iface None all_down_env = Some ''wlan0''" by (simp add: f)
  from a b c h1 h2 h3 show ?thesis by blast
qed

text \<open>
  The claim as stated (ties go to the routing table's order) fails where the routing
  table lists \<open>eth0\<close> before \<open>eth1\<close> and both score the same: \<open>eth1\<close> is picked.
\<close>

theorem pick_iface_tie_counterexample:
  "default_route_ifaces tie_env = [''eth0'', ''eth1''] \<and>
   score tie_env ''eth0'' = score tie_env ''eth1'' \<and>
   pick_iface None tie_env = Some ''eth1''"
  by (simp add: pick_iface_def truthy_def tie_env_def default_route_ifaces_def sort_reverse_def
      rank_entry_def iface_info_def score_def score_of_def is_wireless_def Let_def)

section \<open>Network rate meter: properties\<close>


lemma gone_down_info:
  "gone_down env i \<longleftrightarrow>
     \<not> up (iface_info env i) \<or> (wireless (iface_info env i) \<and> \<not> carrier (iface_info env i))"
  by (simp add: gone_down_def iface_info_def is_wireless_def)





lemma sample_ofI:
  "parse_netdev (read_netdev (m k0)) i = Some (rx, tx) \<Longrightarrow> k1 = k0 + 1 \<Longrightarrow> k1 < k \<Longrightarrow>
   sample_of m k i (rx, tx, time_now (m k1))"
  unfolding sample_of_def by (intro bexI [of _ k0]) simp_all

text \<open>
  \<open>NetMeter.__init__\<close> leaves no baseline, or a baseline that is a sample of the
  interface it leaves.
\<close>

lemma net_meter_init_sample:
  "net_meter_init m env_iface = (k, nm) \<Longrightarrow> iface nm = Some i \<Longrightarrow> baseline nm = Some b \<Longrightarrow>
   sample_of m k i b"
  unfolding net_meter_init_def prime_def
  by (auto simp: Let_def split: option.splits if_splits intro!: sample_ofI)

lemma late_facts:
  "gone_down (late_machine k) ''eth0''" "\<not> gone_down (late_machine k) ''wlan0''"
  "pick_iface None (late_machine k) = Some ''wlan0''"
  "k < 5 \<Longrightarrow> parse_netdev (read_netdev (late_machine k)) ''wlan0'' = None"
  "5 \<le> k \<Longrightarrow> parse_netdev (read_netdev (late_machine k)) ''wlan0'' = Some (22004, 600)"
  "time_now (late_machine k) = 100 + real k"
  by (simp_all add: late_machine_def gone_down_def pick_iface_def truthy_def
      default_route_ifaces_def sort_reverse_def rank_entry_def iface_info_def score_of_def
      is_wireless_def read_netdev_def Let_def)

text \<open>
  A baseline can outlive its interface. When the interface picked anew cannot be read
  while \<open>_prime\<close> runs, \<open>_prime\<close> leaves the interface changed and the baseline as it
  was; the call goes on, and as soon as the new interface can be read a rate is
  computed between the counters of the old interface and those of the new one. On the
  machine where \<open>wlan0\<close> comes late, the call reports 3 KB/s received for an interface
  whose counters, once they can be read, never change: the baseline (500, 600, 99) it starts from is the one
  of \<open>eth0\<close>, not a sample of \<open>wlan0\<close>.
\<close>

lemma rates_ks_stale_baseline:
  "rates_ks late_machine (0, roam_meter) =
     (Some (3, 0), 7, \<lparr>iface = Some ''wlan0'', baseline = Some (22004, 600, 106)\<rparr>) \<and>
   \<not> sample_of late_machine 5 ''wlan0'' (500, 600, 99) \<and>
   (\<forall>k. parse_netdev (read_netdev (late_machine k)) ''wlan0'' \<in> {None, Some (22004, 600)})"
proof -
  have p: "prime late_machine (k, roam_meter\<lparr>iface := Some ''wlan0''\<rparr>) =
      (k + 3, \<lparr>iface = Some ''wlan0'', baseline = Some (500, 600, 99)\<rparr>)" if "k < 3" for k
    using that by (simp add: prime_def roam_meter_def late_facts Let_def)
  have m: "maybe_repick late_machine (0, roam_meter) =
      (5, \<lparr>iface = Some ''wlan0'', baseline = Some (500, 600, 99)\<rparr>)"
    using late_facts(1) [of 0]
    by (simp add: maybe_repick_def truthy_def gone_down_info Let_def late_facts p
        roam_meter_def [THEN arg_cong, of iface])
  have r: "rates_ks late_machine (0, roam_meter) =
     (Some (3, 0), 7, \<lparr>iface = Some ''wlan0'', baseline = Some (22004, 600, 106)\<rparr>)"
    by (simp add: rates_ks_def m truthy_def Let_def late_facts)
  have s: "\<not> sample_of late_machine 5 ''wlan0'' (500, 600, 99)"
    by (auto simp: sample_of_def late_facts)
  have a: "parse_netdev (read_netdev (late_machine k)) ''wlan0'' \<in> {None, Some (22004, 600)}" for k
    using late_facts(4,5) [of k] by (cases "k < 5") auto
  from r s a show ?thesis by blast
qed




end
